theory Spec2Isabelle
  imports Complex_Main
begin

section \<open>Cross-section takeoff: station labels, section frames, polyline merging\<close>

text \<open>
  A shallow embedding of \<^verbatim>\<open>src/xstakeoff/cli.py\<close> and
  \<^verbatim>\<open>src/xstakeoff/pdf_extract.py\<close>.

  Conventions of the model.
  \<^item> Python floats are modelled by \<^typ>\<open>real\<close>: the arithmetic is exact, and there is
    no NaN and no infinity.
  \<^item> Token texts are ASCII strings (\<^typ>\<open>string\<close>).
  \<^item> The PDF library (\<^verbatim>\<open>fitz\<close>) is not part of the repository. Its pages are
    replaced by the data the code reads from them (the list of words, the list of
    drawings, the page size); its rectangles are modelled in the subsection on
    rectangles.
\<close>

subsection \<open>The station pattern (cli.py, \<^verbatim>\<open>STATION_RE\<close>)\<close>

text \<open>
  \<^verbatim>\<open>STATION_RE = re.compile(r"\b\d{3}\+\d{2}\b")\<close>. The pattern has no alternative
  and no open repetition, so it is a sequence of items, each matched at the current
  position of the text.
\<close>

datatype re_item = WordBoundary | Digit | Lit char

definition is_digit :: "char \<Rightarrow> bool" where
  "is_digit c = (c \<in> set ''0123456789'')"

definition is_word_char :: "char \<Rightarrow> bool" where
  "is_word_char c =
     (c \<in> set ''abcdefghijklmnopqrstuvwxyzABCDEFGHIJKLMNOPQRSTUVWXYZ0123456789_'')"

text \<open>
  \<^verbatim>\<open>\b\<close> holds at position \<open>i\<close> of a non-empty text when exactly one of the
  characters before and after the position is a word character (the outside of the text
  counts as a non-word character).
\<close>

definition at_boundary :: "string \<Rightarrow> nat \<Rightarrow> bool" where
  "at_boundary s i =
     (s \<noteq> [] \<and>
      ((0 < i \<and> i \<le> length s \<and> is_word_char (s ! (i - 1))) \<noteq>
       (i < length s \<and> is_word_char (s ! i))))"

fun re_match_at :: "re_item list \<Rightarrow> string \<Rightarrow> nat \<Rightarrow> bool" where
  "re_match_at [] s i = True"
| "re_match_at (WordBoundary # r) s i = (at_boundary s i \<and> re_match_at r s i)"
| "re_match_at (Digit # r) s i = (i < length s \<and> is_digit (s ! i) \<and> re_match_at r s (Suc i))"
| "re_match_at (Lit c # r) s i = (i < length s \<and> s ! i = c \<and> re_match_at r s (Suc i))"

definition STATION_RE :: "re_item list" where
  "STATION_RE =
     [WordBoundary, Digit, Digit, Digit, Lit (CHR ''+''), Digit, Digit, WordBoundary]"

text \<open>\<^verbatim>\<open>STATION_RE.match(text)\<close>: a match that starts at position 0.\<close>

definition station_match :: "string \<Rightarrow> bool" where
  "station_match txt = re_match_at STATION_RE txt 0"

text \<open>
  The spec's wording of the pattern, for comparison with \<open>station_match\<close>: the text starts
  with three digits, a plus sign and two digits.
\<close>

definition station_prefix :: "string \<Rightarrow> bool" where
  "station_prefix txt =
     (6 \<le> length txt \<and> is_digit (txt ! 0) \<and> is_digit (txt ! 1) \<and> is_digit (txt ! 2) \<and>
      txt ! 3 = CHR ''+'' \<and> is_digit (txt ! 4) \<and> is_digit (txt ! 5))"

subsection \<open>Rectangles\<close>

text \<open>
  Modelled from the spec: the rectangle type \<^verbatim>\<open>fitz.Rect\<close> of the PDF library, which is
  not part of the repository. A rectangle is its four coordinates; the constructor stores
  them as given. Intersection (\<^verbatim>\<open>&\<close>) takes the larger of the lower bounds and the
  smaller of the upper bounds, union (\<^verbatim>\<open>|\<close>) is the bounding box of the two, the area
  is width times height with a negative extent counted as zero, and a rectangle is false
  in a condition when all four coordinates are zero.
\<close>

record rect =
  x0 :: real
  y0 :: real
  x1 :: real
  y1 :: real

definition Rect :: "real \<Rightarrow> real \<Rightarrow> real \<Rightarrow> real \<Rightarrow> rect" where
  "Rect a b c d = \<lparr>x0 = a, y0 = b, x1 = c, y1 = d\<rparr>"

definition rect_and :: "rect \<Rightarrow> rect \<Rightarrow> rect" where
  "rect_and r s = Rect (max (x0 r) (x0 s)) (max (y0 r) (y0 s)) (min (x1 r) (x1 s)) (min (y1 r) (y1 s))"

definition rect_or :: "rect \<Rightarrow> rect \<Rightarrow> rect" where
  "rect_or r s = Rect (min (x0 r) (x0 s)) (min (y0 r) (y0 s)) (max (x1 r) (x1 s)) (max (y1 r) (y1 s))"

definition get_area :: "rect \<Rightarrow> real" where
  "get_area r = max 0 (x1 r - x0 r) * max 0 (y1 r - y0 r)"

definition rect_bool :: "rect \<Rightarrow> bool" where
  "rect_bool r = (\<not> (x0 r = 0 \<and> y0 r = 0 \<and> x1 r = 0 \<and> y1 r = 0))"

definition is_empty :: "rect \<Rightarrow> bool" where
  "is_empty r = (x0 r \<ge> x1 r \<or> y0 r \<ge> y1 r)"

definition intersects :: "rect \<Rightarrow> rect \<Rightarrow> bool" where
  "intersects r s =
     (\<not> is_empty r \<and> \<not> is_empty s \<and>
      x0 r < x1 s \<and> x0 s < x1 r \<and> y0 r < y1 s \<and> y0 s < y1 r)"

subsection \<open>Station locator (cli.py, \<^verbatim>\<open>find_station_text\<close>)\<close>

text \<open>
  A word of the text source is the tuple \<^verbatim>\<open>(x0, y0, x1, y1, text, ...)\<close>, of which the
  code reads the first five components. The clip region is applied by the text source, so
  the function receives the words of the region.
\<close>

type_synonym text_word = "real \<times> real \<times> real \<times> real \<times> string"

type_synonym station_hit = "string \<times> rect"

definition find_station_text :: "text_word list \<Rightarrow> station_hit list" where
  "find_station_text words =
     map (\<lambda>(a, b, c, d, txt). (txt, Rect a b c d))
       (filter (\<lambda>(a, b, c, d, txt). station_match txt) words)"

subsection \<open>Section framer (cli.py, \<^verbatim>\<open>detect_section_frames\<close>)\<close>

text \<open>
  The page is replaced by what the code reads from it: all its words, its width and its
  height. Step 1 of the source repeats the loop of \<^verbatim>\<open>find_station_text\<close> over all
  words of the page.
\<close>

definition section_deltas :: "real list \<Rightarrow> real list" where
  "section_deltas ys = map (\<lambda>i. ys ! (i + 1) - ys ! i) [0..<length ys - 1]"

text \<open>Step 3: the section height from the hits, already sorted by their top coordinate.\<close>

definition section_height :: "real \<Rightarrow> station_hit list \<Rightarrow> real" where
  "section_height page_h hits =
     (let ys = map (\<lambda>(st, r). y0 r) hits;
          deltas = section_deltas ys
      in if deltas \<noteq> [] then
           (let deltas_sorted = sort deltas;
                median_delta = deltas_sorted ! (length deltas_sorted div 2)
            in max 200 (median_delta * 0.9))
         else page_h / 3)"

text \<open>Step 4: the frame around one station hit.\<close>

definition station_frame :: "real \<Rightarrow> real \<Rightarrow> real \<Rightarrow> station_hit \<Rightarrow> rect" where
  "station_frame page_w page_h section_h hit =
     (case hit of (st, r) \<Rightarrow>
        let margin_left = page_w * 0.03;
            margin_right = page_w * 0.02;
            y_center = (y0 r + y1 r) / 2;
            top = max 0 (y_center - section_h / 2);
            bottom = min page_h (y_center + section_h / 2)
        in Rect margin_left top (page_w - margin_right) bottom)"

text \<open>Step 5: one iteration of the walk over the frames; \<open>merged\<close> is the list kept so far.\<close>

definition dedup_step :: "rect list \<Rightarrow> rect \<Rightarrow> rect list" where
  "dedup_step merged fr =
     (if merged = [] then [fr]
      else
        let prev = last merged;
            overlap = rect_and prev fr
        in if rect_bool overlap \<and> get_area overlap > 0.4 * min (get_area prev) (get_area fr)
           then butlast merged @ [rect_or prev fr]
           else merged @ [fr])"

definition dedup_frames :: "rect list \<Rightarrow> rect list" where
  "dedup_frames frames_sorted = foldl dedup_step [] frames_sorted"

definition detect_section_frames :: "text_word list \<Rightarrow> real \<Rightarrow> real \<Rightarrow> rect list" where
  "detect_section_frames words page_w page_h =
     (let station_hits = find_station_text words
      in if station_hits = [] then []
         else
           let station_hits = sort_key (\<lambda>s. y0 (snd s)) station_hits;
               section_h = section_height page_h station_hits;
               frames = map (station_frame page_w page_h section_h) station_hits;
               frames_sorted = sort_key y0 frames
           in dedup_frames frames_sorted)"

subsection \<open>Geometry helpers (pdf_extract.py)\<close>

type_synonym point = "real \<times> real"
type_synonym segment = "point \<times> point"
type_synonym polyline = "point list"

text \<open>\<^verbatim>\<open>_dist\<close>: \<^verbatim>\<open>math.hypot\<close> of the coordinate differences.\<close>

definition dist_pt :: "point \<Rightarrow> point \<Rightarrow> real" where
  "dist_pt a b = sqrt ((fst a - fst b)\<^sup>2 + (snd a - snd b)\<^sup>2)"

text \<open>\<^verbatim>\<open>_polyline_length\<close>: the sum over \<^verbatim>\<open>range(1, len(poly))\<close>.\<close>

definition polyline_length :: "polyline \<Rightarrow> real" where
  "polyline_length poly = (\<Sum>i\<leftarrow>[1..<length poly]. dist_pt (poly ! (i - 1)) (poly ! i))"

text \<open>
  Python's \<^verbatim>\<open>round\<close> with one argument rounds to the nearest integer and a tie to the
  even neighbour.
\<close>

definition py_round :: "real \<Rightarrow> int" where
  "py_round x =
     (let f = \<lfloor>x\<rfloor>; d = x - of_int f
      in if d < 1 / 2 then f
         else if d > 1 / 2 then f + 1
         else if even f then f else f + 1)"

text \<open>
  \<^verbatim>\<open>_round_point\<close>. The division raises \<^verbatim>\<open>ZeroDivisionError\<close> when the tolerance is
  zero; the caller below guards that case, so here the tolerance is not zero.
\<close>

definition round_point :: "point \<Rightarrow> real \<Rightarrow> point" where
  "round_point p tol =
     (of_int (py_round (fst p / tol)) * tol, of_int (py_round (snd p / tol)) * tol)"

subsection \<open>Segment collection (pdf_extract.py, lines 28 to 70)\<close>

text \<open>
  A path item is a tuple whose first component is its kind and whose other components are
  either scalars or points. A drawing is a dictionary, of which the code reads the entries
  \<^verbatim>\<open>rect\<close> (possibly missing) and \<^verbatim>\<open>items\<close> (a missing entry is the empty list).
\<close>

datatype field = Num real | Pt real real

type_synonym path_item = "string \<times> field list"

record drawing =
  drawing_rect :: "rect option"
  drawing_items :: "path_item list"

datatype error = TypeError | ZeroDivisionError

text \<open>\<^verbatim>\<open>float(x)\<close> of a field, and \<^verbatim>\<open>(float(p[0]), float(p[1]))\<close> of a field.\<close>

fun to_float :: "field \<Rightarrow> error + real" where
  "to_float (Num r) = Inr r"
| "to_float (Pt x y) = Inl TypeError"

fun to_point :: "field \<Rightarrow> error + point" where
  "to_point (Pt x y) = Inr (x, y)"
| "to_point (Num r) = Inl TypeError"

definition seg_of_scalars :: "field \<Rightarrow> field \<Rightarrow> field \<Rightarrow> field \<Rightarrow> error + segment option" where
  "seg_of_scalars fx1 fy1 fx2 fy2 =
     (case to_float fx1 of Inl e \<Rightarrow> Inl e | Inr xa \<Rightarrow>
      case to_float fy1 of Inl e \<Rightarrow> Inl e | Inr ya \<Rightarrow>
      case to_float fx2 of Inl e \<Rightarrow> Inl e | Inr xb \<Rightarrow>
      case to_float fy2 of Inl e \<Rightarrow> Inl e | Inr yb \<Rightarrow>
        Inr (Some ((xa, ya), (xb, yb))))"

definition seg_of_points :: "field \<Rightarrow> field \<Rightarrow> error + segment option" where
  "seg_of_points fp1 fp2 =
     (case to_point fp1 of Inl e \<Rightarrow> Inl e | Inr a \<Rightarrow>
      case to_point fp2 of Inl e \<Rightarrow> Inl e | Inr b \<Rightarrow>
        Inr (Some (a, b)))"

text \<open>
  One path item: the segment it contributes, \<open>None\<close> when it is skipped. The length of
  the Python tuple is one more than the number of fields.
\<close>

definition item_segment :: "path_item \<Rightarrow> error + segment option" where
  "item_segment item =
     (case item of (kind, fs) \<Rightarrow>
        if kind = ''l'' then
          (if length fs + 1 = 5 then seg_of_scalars (fs ! 0) (fs ! 1) (fs ! 2) (fs ! 3)
           else if length fs + 1 = 3 then seg_of_points (fs ! 0) (fs ! 1)
           else Inr None)
        else if kind = ''c'' then
          (if length fs + 1 = 9 then seg_of_scalars (fs ! 0) (fs ! 1) (fs ! 6) (fs ! 7)
           else if length fs + 1 = 5 then seg_of_points (fs ! 0) (fs ! 3)
           else Inr None)
        else Inr None)"

fun collect_items :: "path_item list \<Rightarrow> segment list \<Rightarrow> error + segment list" where
  "collect_items [] segments = Inr segments"
| "collect_items (item # its) segments =
     (case item_segment item of
        Inl e \<Rightarrow> Inl e
      | Inr None \<Rightarrow> collect_items its segments
      | Inr (Some s) \<Rightarrow> collect_items its (segments @ [s]))"

fun collect_segments :: "drawing list \<Rightarrow> rect \<Rightarrow> segment list \<Rightarrow> error + segment list" where
  "collect_segments [] region segments = Inr segments"
| "collect_segments (d # ds) region segments =
     (case drawing_rect d of
        None \<Rightarrow> collect_segments ds region segments
      | Some drect \<Rightarrow>
          if \<not> rect_bool drect then collect_segments ds region segments
          else if \<not> intersects drect region then collect_segments ds region segments
          else
            (case collect_items (drawing_items d) segments of
               Inl e \<Rightarrow> Inl e
             | Inr segments' \<Rightarrow> collect_segments ds region segments'))"

subsection \<open>Endpoint index and chain merging (pdf_extract.py, lines 72 to 137)\<close>

text \<open>
  \<^verbatim>\<open>endpoint_index\<close> is a dictionary with the empty list as default value; the model is a
  total function from quantized points to lists of segment indices.
\<close>

type_synonym endpoint_index = "point \<Rightarrow> nat list"

definition index_append :: "endpoint_index \<Rightarrow> point \<Rightarrow> nat \<Rightarrow> endpoint_index" where
  "index_append m k i = m(k := m k @ [i])"

fun build_index :: "endpoint_index \<Rightarrow> nat \<Rightarrow> segment list \<Rightarrow> real \<Rightarrow> endpoint_index" where
  "build_index m idx [] tol = m"
| "build_index m idx ((a, b) # segs) tol =
     build_index
       (index_append (index_append m (round_point a tol) idx) (round_point b tol) idx)
       (Suc idx) segs tol"

text \<open>
  \<^verbatim>\<open>unused\<close> is a set of segment indices. It is modelled by the list of its elements in
  the order in which the set is iterated: CPython keeps the small integers
  \<^verbatim>\<open>0 .. n-1\<close> of \<^verbatim>\<open>set(range(n))\<close> in ascending order, and removing elements does
  not reorder the rest, so \<^verbatim>\<open>next(iter(unused))\<close> is the head of the list.
\<close>

definition next_connected :: "endpoint_index \<Rightarrow> real \<Rightarrow> nat list \<Rightarrow> point \<Rightarrow> nat option" where
  "next_connected endpoint_index tol unused current =
     (let bucket = round_point current tol
      in find (\<lambda>cand. cand \<in> set unused) (endpoint_index bucket))"

text \<open>
  The two inner loops of the source (forward from the seed's second endpoint, backward from
  its first) are the same loop on different variables: \<open>(end, chain)\<close> forward and
  \<open>(start, prepend)\<close> backward. \<open>grow\<close> is that loop; it returns the set of unused
  indices and the grown list.
\<close>

function grow ::
  "segment list \<Rightarrow> endpoint_index \<Rightarrow> real \<Rightarrow> nat list \<Rightarrow> point \<Rightarrow> point list
     \<Rightarrow> nat list \<times> point list" where
  "grow segments endpoint_index tol unused cur chain =
     (case next_connected endpoint_index tol unused cur of
        None \<Rightarrow> (unused, chain)
      | Some nxt \<Rightarrow>
          (case segments ! nxt of (a, b) \<Rightarrow>
             if dist_pt cur a \<le> tol then
               grow segments endpoint_index tol (removeAll nxt unused) b (chain @ [b])
             else if dist_pt cur b \<le> tol then
               grow segments endpoint_index tol (removeAll nxt unused) a (chain @ [a])
             else (removeAll nxt unused, chain)))"
  by pat_completeness auto
termination
proof (relation "measure (\<lambda>(segments, endpoint_index, tol, unused, cur, chain). length unused)")
  show "wf (measure (\<lambda>(segments, endpoint_index, tol, unused, cur, chain). length unused))"
    by simp
next
  fix segments :: "segment list" and endpoint_index :: endpoint_index and tol :: real
    and unused :: "nat list" and cur :: point and chain :: "point list" and nxt :: nat
    and a b x y
  assume "next_connected endpoint_index tol unused cur = Some nxt"
  then have "nxt \<in> set unused"
    by (auto simp: next_connected_def find_Some_iff)
  then have "length (removeAll nxt unused) < length unused"
    by (rule length_removeAll_less)
  then show "((segments, endpoint_index, tol, removeAll nxt unused, b, chain @ [b]),
              (segments, endpoint_index, tol, unused, cur, chain))
             \<in> measure (\<lambda>(segments, endpoint_index, tol, unused, cur, chain). length unused)"
    and "((segments, endpoint_index, tol, removeAll nxt unused, a, chain @ [a]),
              (segments, endpoint_index, tol, unused, cur, chain))
             \<in> measure (\<lambda>(segments, endpoint_index, tol, unused, cur, chain). length unused)"
    by simp_all
qed

declare grow.simps [simp del]

lemma grow_None:
  "next_connected endpoint_index tol unused cur = None \<Longrightarrow>
   grow segments endpoint_index tol unused cur chain = (unused, chain)"
  by (subst grow.simps) simp

lemma grow_first:
  "next_connected endpoint_index tol unused cur = Some nxt \<Longrightarrow> segments ! nxt = (a, b) \<Longrightarrow>
   dist_pt cur a \<le> tol \<Longrightarrow>
   grow segments endpoint_index tol unused cur chain =
     grow segments endpoint_index tol (removeAll nxt unused) b (chain @ [b])"
  by (subst grow.simps) simp

lemma grow_second:
  "next_connected endpoint_index tol unused cur = Some nxt \<Longrightarrow> segments ! nxt = (a, b) \<Longrightarrow>
   \<not> dist_pt cur a \<le> tol \<Longrightarrow> dist_pt cur b \<le> tol \<Longrightarrow>
   grow segments endpoint_index tol unused cur chain =
     grow segments endpoint_index tol (removeAll nxt unused) a (chain @ [a])"
  by (subst grow.simps) simp

lemma grow_neither:
  "next_connected endpoint_index tol unused cur = Some nxt \<Longrightarrow> segments ! nxt = (a, b) \<Longrightarrow>
   \<not> dist_pt cur a \<le> tol \<Longrightarrow> \<not> dist_pt cur b \<le> tol \<Longrightarrow>
   grow segments endpoint_index tol unused cur chain = (removeAll nxt unused, chain)"
  by (subst grow.simps) simp

lemma grow_length_le:
  "length (fst (grow segments endpoint_index tol unused cur chain)) \<le> length unused"
proof (induction segments endpoint_index tol unused cur chain rule: grow.induct)
  case (1 segments endpoint_index tol unused cur chain)
  show ?case
  proof (cases "next_connected endpoint_index tol unused cur")
    case None
    then show ?thesis by (simp add: grow_None)
  next
    case (Some nxt)
    obtain a b where ab: "segments ! nxt = (a, b)" by (cases "segments ! nxt")
    have le: "length (removeAll nxt unused) \<le> length unused"
      by (rule length_removeAll_less_eq)
    consider (first) "dist_pt cur a \<le> tol"
      | (second) "\<not> dist_pt cur a \<le> tol" "dist_pt cur b \<le> tol"
      | (neither) "\<not> dist_pt cur a \<le> tol" "\<not> dist_pt cur b \<le> tol"
      by blast
    then show ?thesis
    proof cases
      case first
      have "length (fst (grow segments endpoint_index tol (removeAll nxt unused) b (chain @ [b])))
            \<le> length (removeAll nxt unused)"
        by (rule "1.IH"(1)[OF Some ab[symmetric] first])
      from order_trans[OF this le] show ?thesis by (simp add: grow_first[OF Some ab first])
    next
      case second
      have "length (fst (grow segments endpoint_index tol (removeAll nxt unused) a (chain @ [a])))
            \<le> length (removeAll nxt unused)"
        by (rule "1.IH"(2)[OF Some ab[symmetric] second])
      from order_trans[OF this le] show ?thesis by (simp add: grow_second[OF Some ab second])
    next
      case neither
      with le show ?thesis by (simp add: grow_neither[OF Some ab neither])
    qed
  qed
qed

text \<open>
  The body of the outer loop up to the end of the backward growth: from the seed index
  (already removed from \<open>unused\<close>) to the unused set, the forward chain and the prepend
  list.
\<close>

definition chain_from_seed ::
  "segment list \<Rightarrow> endpoint_index \<Rightarrow> real \<Rightarrow> nat list \<Rightarrow> nat
     \<Rightarrow> nat list \<times> point list \<times> point list" where
  "chain_from_seed segments endpoint_index tol unused start_idx =
     (case segments ! start_idx of (a0, b0) \<Rightarrow>
      case grow segments endpoint_index tol unused b0 [a0, b0] of (unused1, chain) \<Rightarrow>
      case grow segments endpoint_index tol unused1 a0 [a0] of (unused2, prepend) \<Rightarrow>
        (unused2, chain, prepend))"

text \<open>\<^verbatim>\<open>prepend = list(reversed(prepend))[:-1]; merged = prepend + chain\<close>.\<close>

definition merge_chain :: "point list \<Rightarrow> point list \<Rightarrow> polyline" where
  "merge_chain prepend chain = butlast (rev prepend) @ chain"

lemma chain_from_seed_length_le:
  "length (fst (chain_from_seed segments endpoint_index tol unused start_idx)) \<le> length unused"
proof -
  obtain a0 b0 where s: "segments ! start_idx = (a0, b0)" by (cases "segments ! start_idx")
  obtain u1 ch where g1: "grow segments endpoint_index tol unused b0 [a0, b0] = (u1, ch)"
    by (cases "grow segments endpoint_index tol unused b0 [a0, b0]")
  obtain u2 pr where g2: "grow segments endpoint_index tol u1 a0 [a0] = (u2, pr)"
    by (cases "grow segments endpoint_index tol u1 a0 [a0]")
  have "length u1 \<le> length unused"
    using grow_length_le[of segments endpoint_index tol unused b0 "[a0, b0]"] g1 by simp
  moreover have "length u2 \<le> length u1"
    using grow_length_le[of segments endpoint_index tol u1 a0 "[a0]"] g2 by simp
  ultimately show ?thesis by (simp add: chain_from_seed_def s g1 g2)
qed

function merge_loop ::
  "segment list \<Rightarrow> endpoint_index \<Rightarrow> real \<Rightarrow> real \<Rightarrow> nat list \<Rightarrow> polyline list
     \<Rightarrow> polyline list" where
  "merge_loop segments endpoint_index tol min_length unused polylines =
     (case unused of
        [] \<Rightarrow> polylines
      | start_idx # rest \<Rightarrow>
          (case chain_from_seed segments endpoint_index tol (removeAll start_idx unused) start_idx of
             (unused', chain, prepend) \<Rightarrow>
               merge_loop segments endpoint_index tol min_length unused'
                 (if polyline_length (merge_chain prepend chain) \<ge> min_length
                  then polylines @ [merge_chain prepend chain]
                  else polylines)))"
  by pat_completeness auto
termination
proof (relation "measure (\<lambda>(segments, endpoint_index, tol, min_length, unused, polylines). length unused)")
  show "wf (measure (\<lambda>(segments, endpoint_index, tol, min_length, unused, polylines). length unused))"
    by simp
next
  fix segments :: "segment list" and endpoint_index :: endpoint_index and tol min_length :: real
    and unused :: "nat list" and polylines :: "polyline list" and start_idx :: nat
    and rest unused' :: "nat list" and y :: "point list \<times> point list"
    and chain prepend :: "point list"
  assume u: "unused = start_idx # rest"
    and c: "(unused', y) =
            chain_from_seed segments endpoint_index tol (removeAll start_idx unused) start_idx"
    and "(chain, prepend) = y"
  have "length unused' \<le> length (removeAll start_idx unused)"
    using chain_from_seed_length_le[of segments endpoint_index tol "removeAll start_idx unused" start_idx]
    by (simp add: c[symmetric])
  moreover have "length (removeAll start_idx unused) < length unused"
    by (rule length_removeAll_less) (simp add: u)
  ultimately show "((segments, endpoint_index, tol, min_length, unused',
        if min_length \<le> polyline_length (merge_chain prepend chain)
        then polylines @ [merge_chain prepend chain] else polylines),
       (segments, endpoint_index, tol, min_length, unused, polylines))
      \<in> measure (\<lambda>(segments, endpoint_index, tol, min_length, unused, polylines). length unused)"
    by simp
qed

declare merge_loop.simps [simp del]

text \<open>The part of \<^verbatim>\<open>extract_merged_polylines_in_rect\<close> after the segment collection.\<close>

definition merge_segments :: "segment list \<Rightarrow> real \<Rightarrow> real \<Rightarrow> error + polyline list" where
  "merge_segments segments endpoint_tol min_length =
     (if segments = [] then Inr []
      else if endpoint_tol = 0 then Inl ZeroDivisionError
      else
        let endpoint_index = build_index (\<lambda>k. []) 0 segments endpoint_tol;
            unused = [0..<length segments];
            polylines = merge_loop segments endpoint_index endpoint_tol min_length unused []
        in Inr (sort_key (\<lambda>p. - polyline_length p) polylines))"

text \<open>
  \<^verbatim>\<open>polylines.sort(key=_polyline_length, reverse=True)\<close> is a stable sort in descending
  order of the key; \<open>sort_key\<close> on the negated key is the same stable order.
\<close>

definition extract_merged_polylines_in_rect ::
  "drawing list \<Rightarrow> rect \<Rightarrow> real \<Rightarrow> real \<Rightarrow> error + polyline list" where
  "extract_merged_polylines_in_rect drawings region endpoint_tol min_length =
     (case collect_segments drawings region [] of
        Inl e \<Rightarrow> Inl e
      | Inr segments \<Rightarrow> merge_segments segments endpoint_tol min_length)"

subsection \<open>Relations between polylines and segments, for the statements\<close>

text \<open>
  The spec's invariant of a polyline: a consecutive pair of points is a collected segment
  or the reverse of one.
\<close>

definition segment_or_reverse :: "segment list \<Rightarrow> point \<Rightarrow> point \<Rightarrow> bool" where
  "segment_or_reverse segments p q = ((p, q) \<in> set segments \<or> (q, p) \<in> set segments)"

text \<open>
  What one growth step establishes: \<open>q\<close> is an endpoint of the segment and \<open>p\<close>, the
  end of the chain so far, is within the tolerance of the segment's other endpoint.
\<close>

definition joins :: "real \<Rightarrow> segment \<Rightarrow> point \<Rightarrow> point \<Rightarrow> bool" where
  "joins tol s p q =
     (case s of (a, b) \<Rightarrow> (dist_pt p a \<le> tol \<and> q = b) \<or> (dist_pt p b \<le> tol \<and> q = a))"

definition link :: "segment list \<Rightarrow> real \<Rightarrow> point \<Rightarrow> point \<Rightarrow> bool" where
  "link segments tol p q = (\<exists>s\<in>set segments. joins tol s p q)"

text \<open>
  A consecutive pair of a merged polyline: the seed segment itself, a forward growth step
  from \<open>p\<close> to \<open>q\<close>, or a backward growth step from \<open>q\<close> to \<open>p\<close>.
\<close>

definition adjacent :: "segment list \<Rightarrow> real \<Rightarrow> point \<Rightarrow> point \<Rightarrow> bool" where
  "adjacent segments tol p q =
     ((p, q) \<in> set segments \<or> link segments tol p q \<or> link segments tol q p)"

text \<open>
  A line or curve item whose number of fields is none of the two accepted ones for its
  kind.
\<close>

definition unrecognized_field_count :: "path_item \<Rightarrow> bool" where
  "unrecognized_field_count item =
     (case item of (kind, fs) \<Rightarrow>
        (kind = ''l'' \<and> length fs + 1 \<noteq> 5 \<and> length fs + 1 \<noteq> 3) \<or>
        (kind = ''c'' \<and> length fs + 1 \<noteq> 9 \<and> length fs + 1 \<noteq> 5))"

section \<open>Properties\<close>

subsection \<open>Station locator\<close>

lemma is_digit_word_char: "is_digit c \<Longrightarrow> is_word_char c"
  by (auto simp: is_digit_def is_word_char_def)

lemma station_match_iff:
  "station_match txt \<longleftrightarrow>
     station_prefix txt \<and> \<not> (6 < length txt \<and> is_word_char (txt ! 6))"
  by (auto simp: station_match_def STATION_RE_def station_prefix_def at_boundary_def
      eval_nat_numeral dest: is_digit_word_char)

lemmas station_eval =
  station_match_def STATION_RE_def at_boundary_def is_digit_def is_word_char_def

text \<open>
  Against C1 as stated: the pattern ends with \<^verbatim>\<open>\b\<close>, so a token that continues with a
  digit or a letter after the two final digits is not a station. \<^verbatim>\<open>"445+005"\<close> and
  \<^verbatim>\<open>"445+00extra"\<close> are not returned.
\<close>

theorem station_prefix_tokens_rejected:
  "station_prefix ''445+005'' \<and> station_prefix ''445+00extra'' \<and>
   \<not> station_match ''445+005'' \<and> \<not> station_match ''445+00extra'' \<and>
   find_station_text [(0, 0, 1, 1, ''445+005''), (0, 0, 1, 1, ''445+00extra'')] = []"
  by (simp add: find_station_text_def station_prefix_def station_eval)

text \<open>
  C1 (amended). The station locator returns, in scan order, exactly the tokens whose text
  starts with three digits, a plus sign and two digits and in which no word character
  (letter, digit or underscore) follows these six characters. \<^verbatim>\<open>"445+00"\<close> matches,
  \<^verbatim>\<open>"45+00"\<close> does not, \<^verbatim>\<open>"445+005"\<close> and \<^verbatim>\<open>"445+00extra"\<close> do not, and
  \<^verbatim>\<open>"445+00-extra"\<close> does.
\<close>

theorem find_station_text_word_boundary:
  "find_station_text ws =
     map (\<lambda>(a, b, c, d, txt). (txt, Rect a b c d))
       (filter (\<lambda>(a, b, c, d, txt).
          station_prefix txt \<and> \<not> (6 < length txt \<and> is_word_char (txt ! 6))) ws) \<and>
   station_match ''445+00'' \<and> \<not> station_match ''45+00'' \<and>
   \<not> station_match ''445+005'' \<and> \<not> station_match ''445+00extra'' \<and>
   station_match ''445+00-extra''"
proof -
  have "find_station_text ws =
     map (\<lambda>(a, b, c, d, txt). (txt, Rect a b c d))
       (filter (\<lambda>(a, b, c, d, txt).
          station_prefix txt \<and> \<not> (6 < length txt \<and> is_word_char (txt ! 6))) ws)"
    by (simp add: find_station_text_def station_match_iff)
  moreover have "station_match ''445+00'' \<and> \<not> station_match ''45+00'' \<and>
     \<not> station_match ''445+005'' \<and> \<not> station_match ''445+00extra'' \<and>
     station_match ''445+00-extra''"
    by (simp add: station_eval)
  ultimately show ?thesis by blast
qed

subsection \<open>Distances and lengths\<close>

lemma dist_pt_le_iff:
  "0 \<le> t \<Longrightarrow> (dist_pt a b \<le> t) = ((fst a - fst b)\<^sup>2 + (snd a - snd b)\<^sup>2 \<le> t\<^sup>2)"
  unfolding dist_pt_def
  by (metis real_sqrt_le_iff real_sqrt_abs abs_of_nonneg)

lemma dist_pt_horizontal: "dist_pt (x, y) (x', y) = \<bar>x - x'\<bar>"
  by (simp add: dist_pt_def)

lemma polyline_length_Cons2:
  "polyline_length (p # q # ps) = dist_pt p q + polyline_length (q # ps)"
proof -
  have up: "[1..<length (p # q # ps)] = 1 # map Suc [1..<length (q # ps)]"
    by (simp add: upt_conv_Cons map_Suc_upt del: upt_Suc)
  have "polyline_length (p # q # ps) =
        dist_pt p q + (\<Sum>i\<leftarrow>[1..<length (q # ps)]. dist_pt ((p # q # ps) ! (Suc i - 1)) ((p # q # ps) ! Suc i))"
    unfolding polyline_length_def up by (simp add: o_def del: upt_Suc)
  also have "map (\<lambda>i. dist_pt ((p # q # ps) ! (Suc i - 1)) ((p # q # ps) ! Suc i)) [1..<length (q # ps)]
      = map (\<lambda>i. dist_pt ((q # ps) ! (i - 1)) ((q # ps) ! i)) [1..<length (q # ps)]"
    by (rule map_cong) (auto simp: nth_Cons')
  finally show ?thesis by (simp add: polyline_length_def)
qed

lemma polyline_length_single: "polyline_length [p] = 0"
  by (simp add: polyline_length_def)

lemma polyline_length_Nil: "polyline_length [] = 0"
  by (simp add: polyline_length_def)

lemma dist_pt_vertical: "dist_pt (x, y) (x, y') = \<bar>y - y'\<bar>"
  by (simp add: dist_pt_def)

subsection \<open>Invariants of the chain growth and of the outer loop\<close>

lemma grow_invariant:
  assumes "set unused \<subseteq> {..<length segments}"
    and "grow segments endpoint_index tol unused cur chain = (unused', chain')"
  shows "set unused' \<subseteq> set unused \<and>
         (\<exists>ext. chain' = chain @ ext \<and> successively (link segments tol) (cur # ext))"
  using assms
proof (induction segments endpoint_index tol unused cur chain rule: grow.induct)
  case (1 segments endpoint_index tol unused cur chain)
  show ?case
  proof (cases "next_connected endpoint_index tol unused cur")
    case None
    with "1.prems" show ?thesis by (simp add: grow_None)
  next
    case (Some nxt)
    obtain a b where ab: "segments ! nxt = (a, b)" by (cases "segments ! nxt")
    from Some have "nxt \<in> set unused"
      by (auto simp: next_connected_def find_Some_iff)
    with "1.prems"(1) have "nxt < length segments" by auto
    then have mem: "(a, b) \<in> set segments" using ab by (metis nth_mem)
    have sub: "set (removeAll nxt unused) \<subseteq> {..<length segments}"
      using "1.prems"(1) by auto
    consider (first) "dist_pt cur a \<le> tol"
      | (second) "\<not> dist_pt cur a \<le> tol" "dist_pt cur b \<le> tol"
      | (neither) "\<not> dist_pt cur a \<le> tol" "\<not> dist_pt cur b \<le> tol"
      by blast
    then show ?thesis
    proof cases
      case first
      have g: "grow segments endpoint_index tol (removeAll nxt unused) b (chain @ [b]) = (unused', chain')"
        using "1.prems"(2) by (simp add: grow_first[OF Some ab first])
      from "1.IH"(1)[OF Some ab[symmetric] first sub g]
      obtain ext where s: "set unused' \<subseteq> set (removeAll nxt unused)"
        and e: "chain' = (chain @ [b]) @ ext" and l: "successively (link segments tol) (b # ext)"
        by blast
      have "link segments tol cur b"
        using mem first by (auto simp: link_def joins_def)
      with l have "successively (link segments tol) (cur # b # ext)" by simp
      with s e show ?thesis by auto
    next
      case second
      have g: "grow segments endpoint_index tol (removeAll nxt unused) a (chain @ [a]) = (unused', chain')"
        using "1.prems"(2) by (simp add: grow_second[OF Some ab second])
      from "1.IH"(2)[OF Some ab[symmetric] second sub g]
      obtain ext where s: "set unused' \<subseteq> set (removeAll nxt unused)"
        and e: "chain' = (chain @ [a]) @ ext" and l: "successively (link segments tol) (a # ext)"
        by blast
      have "link segments tol cur a"
        using mem second by (auto simp: link_def joins_def)
      with l have "successively (link segments tol) (cur # a # ext)" by simp
      with s e show ?thesis by auto
    next
      case neither
      with "1.prems"(2) show ?thesis by (auto simp: grow_neither[OF Some ab neither])
    qed
  qed
qed


lemma chain_from_seed_structure:
  assumes "set unused \<subseteq> {..<length segments}"
    and "segments ! start_idx = (a0, b0)"
    and "chain_from_seed segments endpoint_index tol unused start_idx = (unused', chain, prepend)"
  shows "set unused' \<subseteq> set unused \<and>
         (\<exists>fw bw. chain = a0 # b0 # fw \<and> prepend = a0 # bw \<and>
            successively (link segments tol) (b0 # fw) \<and>
            successively (link segments tol) (a0 # bw))"
proof -
  obtain u1 ch where g1: "grow segments endpoint_index tol unused b0 [a0, b0] = (u1, ch)"
    by (cases "grow segments endpoint_index tol unused b0 [a0, b0]")
  obtain u2 pr where g2: "grow segments endpoint_index tol u1 a0 [a0] = (u2, pr)"
    by (cases "grow segments endpoint_index tol u1 a0 [a0]")
  from assms(3) have eq: "unused' = u2" "chain = ch" "prepend = pr"
    by (simp_all add: chain_from_seed_def assms(2) g1 g2)
  from grow_invariant[OF assms(1) g1] obtain fw where
    s1: "set u1 \<subseteq> set unused" and c: "ch = [a0, b0] @ fw"
    and l1: "successively (link segments tol) (b0 # fw)" by blast
  from s1 assms(1) have "set u1 \<subseteq> {..<length segments}" by blast
  from grow_invariant[OF this g2] obtain bw where
    s2: "set u2 \<subseteq> set u1" and p: "pr = [a0] @ bw"
    and l2: "successively (link segments tol) (a0 # bw)" by blast
  from s1 s2 c p l1 l2 show ?thesis unfolding eq by auto
qed

lemma merge_chain_seed: "merge_chain (a0 # bw) chain = rev bw @ chain"
  by (simp add: merge_chain_def)

lemma merge_loop_Nil:
  "merge_loop segments endpoint_index tol min_length [] polylines = polylines"
  by (subst merge_loop.simps) simp

lemma merge_loop_Cons:
  "chain_from_seed segments endpoint_index tol (removeAll start_idx (start_idx # rest)) start_idx
     = (unused', chain, prepend) \<Longrightarrow>
   merge_loop segments endpoint_index tol min_length (start_idx # rest) polylines =
     merge_loop segments endpoint_index tol min_length unused'
       (if polyline_length (merge_chain prepend chain) \<ge> min_length
        then polylines @ [merge_chain prepend chain] else polylines)"
  by (subst merge_loop.simps) simp

lemma merge_loop_invariant:
  assumes "set unused \<subseteq> {..<length segments}"
    and "\<forall>p\<in>set polylines. Q p"
    and step: "\<And>u start u' ch pre.
      set u \<subseteq> {..<length segments} \<Longrightarrow> start < length segments \<Longrightarrow>
      chain_from_seed segments endpoint_index tol u start = (u', ch, pre) \<Longrightarrow>
      min_length \<le> polyline_length (merge_chain pre ch) \<Longrightarrow> Q (merge_chain pre ch)"
  shows "\<forall>p\<in>set (merge_loop segments endpoint_index tol min_length unused polylines). Q p"
  using assms
proof (induction segments endpoint_index tol min_length unused polylines rule: merge_loop.induct)
  case (1 segments endpoint_index tol min_length unused polylines)
  show ?case
  proof (cases unused)
    case Nil
    with "1.prems" show ?thesis by (simp add: merge_loop_Nil)
  next
    case (Cons start_idx rest)
    let ?u = "removeAll start_idx unused"
    obtain u' ch pre where c: "chain_from_seed segments endpoint_index tol ?u start_idx = (u', ch, pre)"
      by (cases "chain_from_seed segments endpoint_index tol ?u start_idx")
    have lt: "start_idx < length segments" using "1.prems"(1) Cons by auto
    have sub: "set ?u \<subseteq> {..<length segments}" using "1.prems"(1) by auto
    obtain a0 b0 where ab: "segments ! start_idx = (a0, b0)" by (cases "segments ! start_idx")
    from chain_from_seed_structure[OF sub ab c] have "set u' \<subseteq> set ?u" by blast
    with sub have sub': "set u' \<subseteq> {..<length segments}" by blast
    let ?polys = "if min_length \<le> polyline_length (merge_chain pre ch)
                  then polylines @ [merge_chain pre ch] else polylines"
    have Q: "\<forall>p\<in>set ?polys. Q p"
      using "1.prems"(2) "1.prems"(3)[OF sub lt c] by auto
    have "\<forall>p\<in>set (merge_loop segments endpoint_index tol min_length u' ?polys). Q p"
      by (rule "1.IH"[OF Cons c[symmetric] refl sub' Q "1.prems"(3)])
    then show ?thesis
      using merge_loop_Cons[of segments endpoint_index tol start_idx rest u' ch pre min_length polylines] c
      by (simp add: Cons)
  qed
qed


lemmas merge_eval =
  merge_segments_def index_append_def round_point_def py_round_def merge_loop.simps
  chain_from_seed_def grow.simps next_connected_def dist_pt_le_iff merge_chain_def
  polyline_length_Cons2 polyline_length_single polyline_length_Nil
  dist_pt_horizontal dist_pt_vertical Let_def power2_eq_square

lemmas collect_eval =
  extract_merged_polylines_in_rect_def item_segment_def seg_of_scalars_def seg_of_points_def
  rect_bool_def intersects_def is_empty_def Rect_def

subsection \<open>Merge closure\<close>

text \<open>
  Against C2 as stated: the two segments do merge into one polyline of three points, but
  the growth step appends only the far endpoint \<open>(20, 0)\<close> of the second segment; its near
  endpoint \<open>(10, 1/2)\<close> is not a point of the polyline. The polyline is
  \<open>(0,0), (10,0), (20,0)\<close> and its length is exactly 20, more than a hundredth below
  \<open>10 + sqrt 100.25\<close>.
\<close>

theorem merge_closure_length_not_as_stated:
  "merge_segments [((0, 0), (10, 0)), ((10, 1 / 2), (20, 0))] 1 1 = Inr [[(0, 0), (10, 0), (20, 0)]] \<and>
   polyline_length [(0, 0), (10, 0), (20, 0)] = 20 \<and>
   polyline_length [(0, 0), (10, 0), (20, 0)] + 1 / 100 < 10 + sqrt (100 + 1 / 4)"
proof -
  have "(1001 / 100)\<^sup>2 < (100 + 1 / 4 :: real)" by (simp add: power2_eq_square)
  then have "sqrt ((1001 / 100)\<^sup>2) < sqrt (100 + 1 / 4)"
    by (simp only: real_sqrt_less_iff)
  then have "1001 / 100 < sqrt (100 + 1 / 4)" by simp
  then show ?thesis by (simp add: merge_eval)
qed

text \<open>
  C2 (amended). For the two segments \<open>((0,0),(10,0))\<close> and \<open>((10,0.5),(20,0))\<close>, tolerance 1
  and a minimal length of at most 20, the reconstructor returns the single three-point
  polyline \<open>(0,0), (10,0), (20,0)\<close>, of length exactly 20, and not two polylines: the near
  endpoints \<open>(10,0)\<close> and \<open>(10,0.5)\<close> quantize to the same bucket and are within the
  tolerance of each other.
\<close>

theorem merge_closure_example:
  "min_length \<le> 20 \<Longrightarrow>
   merge_segments [((0, 0), (10, 0)), ((10, 1 / 2), (20, 0))] 1 min_length
     = Inr [[(0, 0), (10, 0), (20, 0)]] \<and>
   polyline_length [(0, 0), (10, 0), (20, 0)] = 20 \<and>
   round_point (10, 0) 1 = round_point (10, 1 / 2) 1 \<and>
   dist_pt (10, 0) (10, 1 / 2) \<le> 1"
  by (simp add: merge_eval)

theorem merge_closure_example_witness:
  "merge_segments [((0, 0), (10, 0)), ((10, 1 / 2), (20, 0))] 1 5
     = Inr [[(0, 0), (10, 0), (20, 0)]] \<and>
   polyline_length [(0, 0), (10, 0), (20, 0)] = 20"
  using merge_closure_example[of 5] by simp

text \<open>
  The seed of a chain is the first element in the iteration order of \<open>unused\<close>. Started
  with the two indices in the other order, the loop seeds the chain with the second segment
  and grows it backward: the polyline is then \<open>(0,0), (10,0.5), (20,0)\<close>, of length
  \<open>2 * sqrt 100.25\<close>.
\<close>

lemma merge_closure_other_iteration_order:
  "merge_loop [((0, 0), (10, 0)), ((10, 1 / 2), (20, 0))]
     (build_index (\<lambda>k. []) 0 [((0, 0), (10, 0)), ((10, 1 / 2), (20, 0))] 1) 1 1 [1, 0] []
     = [[(0, 0), (10, 1 / 2), (20, 0)]] \<and>
   polyline_length [(0, 0), (10, 1 / 2), (20, 0)] = 2 * sqrt (100 + 1 / 4)"
proof -
  have "(1 :: real) \<le> sqrt (401 / 4)"
    by (rule real_le_rsqrt) simp
  then have "1 \<le> sqrt (401 / 4) * 2"
    by linarith
  then show ?thesis
    by (simp add: merge_eval dist_pt_def)
qed

subsection \<open>Length filter and ranking\<close>

lemma sorted_neg_key:
  "sorted (map (\<lambda>p. - f p) xs) \<Longrightarrow> sorted_wrt (\<ge>) (map (f :: 'a \<Rightarrow> real) xs)"
  by (simp add: sorted_map sorted_wrt_map)

lemma merge_segments_lengths:
  assumes "merge_segments segments tol min_length = Inr polys"
  shows "(\<forall>p\<in>set polys. min_length \<le> polyline_length p) \<and>
         sorted_wrt (\<ge>) (map polyline_length polys)"
proof (cases "segments = [] \<or> tol = 0")
  case True
  with assms show ?thesis by (auto simp: merge_segments_def split: if_splits)
next
  case False
  let ?ps = "merge_loop segments (build_index (\<lambda>k. []) 0 segments tol) tol min_length
               [0..<length segments] []"
  from assms False have polys: "polys = sort_key (\<lambda>p. - polyline_length p) ?ps"
    by (auto simp: merge_segments_def Let_def)
  have "\<forall>p\<in>set ?ps. min_length \<le> polyline_length p"
    by (rule merge_loop_invariant) auto
  moreover have "sorted (map (\<lambda>p. - polyline_length p) polys)"
    unfolding polys by (rule sorted_sort_key)
  ultimately show ?thesis
    using sorted_neg_key[of polyline_length polys] by (simp add: polys)
qed

text \<open>
  C3. Every polyline that \<^verbatim>\<open>extract_merged_polylines_in_rect\<close> returns has a total
  length of at least \<open>min_length\<close>, and the returned list is sorted by non-increasing
  length.
\<close>

theorem length_monotonicity:
  "extract_merged_polylines_in_rect drawings region endpoint_tol min_length = Inr polys \<Longrightarrow>
   (\<forall>p\<in>set polys. min_length \<le> polyline_length p) \<and>
   sorted_wrt (\<ge>) (map polyline_length polys)"
  by (auto simp: extract_merged_polylines_in_rect_def split: sum.splits
      dest: merge_segments_lengths)


theorem length_monotonicity_witness:
  "extract_merged_polylines_in_rect
     [\<lparr>drawing_rect = Some (Rect 0 0 30 60),
       drawing_items =
         [(''l'', [Num 0, Num 0, Num 10, Num 0]), (''l'', [Pt 10 (1 / 2), Pt 20 0]),
          (''l'', [Num 0, Num 50, Num 30, Num 50]), (''l'', [Num 0, Num 40, Num 3, Num 40])]\<rparr>]
     (Rect 0 0 100 100) 1 5
     = Inr [[(0, 50), (30, 50)], [(0, 0), (10, 0), (20, 0)]] \<and>
   5 \<le> polyline_length [(0, 50), (30, 50)] \<and>
   5 \<le> polyline_length [(0, 0), (10, 0), (20, 0)] \<and>
   polyline_length [(0, 0), (10, 0), (20, 0)] \<le> polyline_length [(0, 50), (30, 50)]"
proof -
  have e: "extract_merged_polylines_in_rect
     [\<lparr>drawing_rect = Some (Rect 0 0 30 60),
       drawing_items =
         [(''l'', [Num 0, Num 0, Num 10, Num 0]), (''l'', [Pt 10 (1 / 2), Pt 20 0]),
          (''l'', [Num 0, Num 50, Num 30, Num 50]), (''l'', [Num 0, Num 40, Num 3, Num 40])]\<rparr>]
     (Rect 0 0 100 100) 1 5
     = Inr [[(0, 50), (30, 50)], [(0, 0), (10, 0), (20, 0)]]"
    by (simp add: collect_eval merge_eval)
  from length_monotonicity[OF e] e show ?thesis by simp
qed


subsection \<open>The polyline invariant\<close>

lemma successively_adjacent_merged:
  assumes bw: "successively (link segments tol) (a0 # bw)"
    and fw: "successively (link segments tol) (b0 # fw)"
    and seed: "(a0, b0) \<in> set segments"
  shows "successively (adjacent segments tol) (rev bw @ a0 # b0 # fw)"
proof -
  have "successively (\<lambda>p q. link segments tol q p) (rev (a0 # bw))"
    using bw by (simp only: successively_rev)
  then have "successively (\<lambda>p q. link segments tol q p) (rev bw @ [a0])"
    by (simp only: rev.simps)
  then have "successively (adjacent segments tol) (rev bw @ [a0])"
    by (rule successively_mono) (simp_all add: adjacent_def)
  moreover have "successively (adjacent segments tol) (b0 # fw)"
    using fw by (rule successively_mono) (simp add: adjacent_def)
  moreover have "adjacent segments tol a0 b0"
    using seed by (simp add: adjacent_def)
  ultimately have "successively (adjacent segments tol) ((rev bw @ [a0]) @ b0 # fw)"
    by (simp only: successively_append_iff) simp
  then show ?thesis by simp
qed

lemma merge_segments_adjacent:
  assumes "merge_segments segments tol min_length = Inr polys"
  shows "\<forall>p\<in>set polys. 2 \<le> length p \<and> successively (adjacent segments tol) p"
proof (cases "segments = [] \<or> tol = 0")
  case True
  with assms show ?thesis by (auto simp: merge_segments_def split: if_splits)
next
  case False
  let ?idx = "build_index (\<lambda>k. []) 0 segments tol"
  let ?ps = "merge_loop segments ?idx tol min_length [0..<length segments] []"
  from assms False have polys: "polys = sort_key (\<lambda>p. - polyline_length p) ?ps"
    by (auto simp: merge_segments_def Let_def)
  have "\<forall>p\<in>set ?ps. 2 \<le> length p \<and> successively (adjacent segments tol) p"
  proof (rule merge_loop_invariant)
    show "set [0..<length segments] \<subseteq> {..<length segments}" by auto
  next
    show "\<forall>p\<in>set []. 2 \<le> length p \<and> successively (adjacent segments tol) p" by simp
  next
    fix u start u' ch pre
    assume u: "set u \<subseteq> {..<length segments}" and st: "start < length segments"
      and c: "chain_from_seed segments ?idx tol u start = (u', ch, pre)"
    obtain a0 b0 where ab: "segments ! start = (a0, b0)" by (cases "segments ! start")
    from st ab have seed: "(a0, b0) \<in> set segments" by (metis nth_mem)
    from chain_from_seed_structure[OF u ab c] obtain fw bw where
      ch: "ch = a0 # b0 # fw" and pre: "pre = a0 # bw"
      and l1: "successively (link segments tol) (b0 # fw)"
      and l2: "successively (link segments tol) (a0 # bw)" by blast
    have m: "merge_chain pre ch = rev bw @ a0 # b0 # fw"
      by (simp add: ch pre merge_chain_seed)
    show "2 \<le> length (merge_chain pre ch) \<and> successively (adjacent segments tol) (merge_chain pre ch)"
      unfolding m using successively_adjacent_merged[OF l2 l1 seed] by simp
  qed
  then show ?thesis by (simp add: polys)
qed

text \<open>
  Against C6 as stated: a growth step joins a segment whose near endpoint is within the
  tolerance of the chain end, without being equal to it, and appends only the far endpoint.
  The pair \<open>(10,0), (20,0)\<close> of the returned polyline is neither a collected segment nor the
  reverse of one.
\<close>

theorem polyline_pair_not_a_segment:
  "collect_segments
     [\<lparr>drawing_rect = Some (Rect 0 0 20 1),
       drawing_items = [(''l'', [Num 0, Num 0, Num 10, Num 0]), (''l'', [Pt 10 (1 / 2), Pt 20 0])]\<rparr>]
     (Rect 0 0 100 100) [] = Inr [((0, 0), (10, 0)), ((10, 1 / 2), (20, 0))] \<and>
   extract_merged_polylines_in_rect
     [\<lparr>drawing_rect = Some (Rect 0 0 20 1),
       drawing_items = [(''l'', [Num 0, Num 0, Num 10, Num 0]), (''l'', [Pt 10 (1 / 2), Pt 20 0])]\<rparr>]
     (Rect 0 0 100 100) 1 1 = Inr [[(0, 0), (10, 0), (20, 0)]] \<and>
   \<not> successively (segment_or_reverse [((0, 0), (10, 0)), ((10, 1 / 2), (20, 0))])
        [(0, 0), (10, 0), (20, 0)]"
  by (simp add: collect_eval merge_eval segment_or_reverse_def)

text \<open>
  C6 (amended). Every polyline returned by \<^verbatim>\<open>extract_merged_polylines_in_rect\<close> is a
  sequence of at least 2 points, and for every consecutive pair of its points there is a
  collected segment that is either the pair itself, or has one point of the pair as an
  endpoint while its other endpoint is within \<open>endpoint_tol\<close> of the other point of the
  pair.
\<close>

theorem polyline_pairs_adjacent:
  "collect_segments drawings region [] = Inr segments \<Longrightarrow>
   extract_merged_polylines_in_rect drawings region endpoint_tol min_length = Inr polys \<Longrightarrow>
   \<forall>p\<in>set polys. 2 \<le> length p \<and> successively (adjacent segments endpoint_tol) p"
  using merge_segments_adjacent[of segments endpoint_tol min_length polys]
  by (simp add: extract_merged_polylines_in_rect_def)

theorem polyline_pairs_adjacent_witness:
  "collect_segments
     [\<lparr>drawing_rect = Some (Rect 0 0 20 1),
       drawing_items = [(''l'', [Num 0, Num 0, Num 10, Num 0]), (''l'', [Pt 10 (1 / 2), Pt 20 0])]\<rparr>]
     (Rect 0 0 100 100) [] = Inr [((0, 0), (10, 0)), ((10, 1 / 2), (20, 0))] \<and>
   extract_merged_polylines_in_rect
     [\<lparr>drawing_rect = Some (Rect 0 0 20 1),
       drawing_items = [(''l'', [Num 0, Num 0, Num 10, Num 0]), (''l'', [Pt 10 (1 / 2), Pt 20 0])]\<rparr>]
     (Rect 0 0 100 100) 1 1 = Inr [[(0, 0), (10, 0), (20, 0)]] \<and>
   2 \<le> length [(0, 0), (10, 0), (20 :: real, 0 :: real)] \<and>
   successively (adjacent [((0, 0), (10, 0)), ((10, 1 / 2), (20, 0))] 1) [(0, 0), (10, 0), (20, 0)]"
proof -
  have c: "collect_segments
     [\<lparr>drawing_rect = Some (Rect 0 0 20 1),
       drawing_items = [(''l'', [Num 0, Num 0, Num 10, Num 0]), (''l'', [Pt 10 (1 / 2), Pt 20 0])]\<rparr>]
     (Rect 0 0 100 100) [] = Inr [((0, 0), (10, 0)), ((10, 1 / 2), (20, 0))]"
    by (simp add: collect_eval)
  have e: "extract_merged_polylines_in_rect
     [\<lparr>drawing_rect = Some (Rect 0 0 20 1),
       drawing_items = [(''l'', [Num 0, Num 0, Num 10, Num 0]), (''l'', [Pt 10 (1 / 2), Pt 20 0])]\<rparr>]
     (Rect 0 0 100 100) 1 1 = Inr [[(0, 0), (10, 0), (20, 0)]]"
    by (simp add: collect_eval merge_eval)
  from polyline_pairs_adjacent[OF c e] c e show ?thesis by simp
qed


subsection \<open>Joining the prepend list and the forward chain\<close>

lemma grow_extends:
  "\<exists>ext. snd (grow segments endpoint_index tol unused cur chain) = chain @ ext"
proof (induction segments endpoint_index tol unused cur chain rule: grow.induct)
  case (1 segments endpoint_index tol unused cur chain)
  show ?case
  proof (cases "next_connected endpoint_index tol unused cur")
    case None
    then show ?thesis by (simp add: grow_None)
  next
    case (Some nxt)
    obtain a b where ab: "segments ! nxt = (a, b)" by (cases "segments ! nxt")
    consider (first) "dist_pt cur a \<le> tol"
      | (second) "\<not> dist_pt cur a \<le> tol" "dist_pt cur b \<le> tol"
      | (neither) "\<not> dist_pt cur a \<le> tol" "\<not> dist_pt cur b \<le> tol"
      by blast
    then show ?thesis
    proof cases
      case first
      from "1.IH"(1)[OF Some ab[symmetric] first] show ?thesis
        by (auto simp: grow_first[OF Some ab first])
    next
      case second
      from "1.IH"(2)[OF Some ab[symmetric] second] show ?thesis
        by (auto simp: grow_second[OF Some ab second])
    next
      case neither
      then show ?thesis by (simp add: grow_neither[OF Some ab neither])
    qed
  qed
qed

text \<open>
  Against C7 as stated: the merged sequence holds the seed's start point once at the
  junction, but the point can come back later in the forward chain. For the four sides of
  a square, the chain grown from the first side closes the loop, and the merged sequence
  placed into the output starts and ends with the seed's start point \<open>(0,0)\<close>.
\<close>

theorem seed_start_twice_in_closed_loop:
  "chain_from_seed
     [((0, 0), (10, 0)), ((10, 0), (10, 10)), ((10, 10), (0, 10)), ((0, 10), (0, 0))]
     (build_index (\<lambda>k. []) 0
        [((0, 0), (10, 0)), ((10, 0), (10, 10)), ((10, 10), (0, 10)), ((0, 10), (0, 0))] 1)
     1 [1, 2, 3] 0
     = ([], [(0, 0), (10, 0), (10, 10), (0, 10), (0, 0)], [(0, 0)]) \<and>
   merge_chain [(0, 0)] [(0, 0), (10, 0), (10, 10), (0, 10), (0, 0)]
     = [(0, 0), (10, 0), (10, 10), (0, 10), (0 :: real, 0 :: real)] \<and>
   count_list (merge_chain [(0, 0)] [(0, 0), (10, 0), (10, 10), (0, 10), (0, 0)]) (0 :: real, 0 :: real) = 2 \<and>
   merge_segments
     [((0, 0), (10, 0)), ((10, 0), (10, 10)), ((10, 10), (0, 10)), ((0, 10), (0, 0))] 1 1
     = Inr [[(0, 0), (10, 0), (10, 10), (0, 10), (0, 0)]]"
  by (simp add: merge_eval)

text \<open>
  C7 (amended). The forward chain begins with the seed's two endpoints and the prepend list
  begins with the seed's start point. The merged sequence placed into the output is the
  reversed prepend list without that first element, followed by the forward chain. So the
  junction holds the seed's start point once, and the number of its occurrences in the
  merged sequence is one more than the number of its occurrences among the points added
  by the two growth loops and the seed's end point.
\<close>

theorem merged_sequence_structure:
  "segments ! start_idx = (a0, b0) \<Longrightarrow>
   chain_from_seed segments endpoint_index tol unused start_idx = (unused', chain, prepend) \<Longrightarrow>
   take 2 chain = [a0, b0] \<and> take 1 prepend = [a0] \<and>
   merge_chain prepend chain = rev (tl prepend) @ chain \<and>
   count_list (merge_chain prepend chain) a0 =
     count_list (tl prepend) a0 + 1 + count_list (tl chain) a0"
proof -
  assume s: "segments ! start_idx = (a0, b0)"
    and c: "chain_from_seed segments endpoint_index tol unused start_idx = (unused', chain, prepend)"
  obtain u1 ch where g1: "grow segments endpoint_index tol unused b0 [a0, b0] = (u1, ch)"
    by (cases "grow segments endpoint_index tol unused b0 [a0, b0]")
  obtain u2 pr where g2: "grow segments endpoint_index tol u1 a0 [a0] = (u2, pr)"
    by (cases "grow segments endpoint_index tol u1 a0 [a0]")
  from c have eq: "chain = ch" "prepend = pr"
    by (simp_all add: chain_from_seed_def s g1 g2)
  from grow_extends[of segments endpoint_index tol unused b0 "[a0, b0]"] g1
  obtain fw where ch: "ch = [a0, b0] @ fw" by auto
  from grow_extends[of segments endpoint_index tol u1 a0 "[a0]"] g2
  obtain bw where pr: "pr = [a0] @ bw" by auto
  show ?thesis
    unfolding eq ch pr by (simp add: merge_chain_def)
qed

theorem merged_sequence_structure_witness:
  "chain_from_seed [((10, 0), (20, 0)), ((0, 0), (10, 0))]
     (build_index (\<lambda>k. []) 0 [((10, 0), (20, 0)), ((0, 0), (10, 0))] 1) 1 [1] 0
     = ([], [(10, 0), (20, 0)], [(10, 0), (0, 0)]) \<and>
   merge_chain [(10, 0), (0, 0)] [(10, 0), (20, 0)] = [(0, 0), (10, 0), (20 :: real, 0 :: real)] \<and>
   count_list (merge_chain [(10, 0), (0, 0)] [(10, 0), (20, 0)]) (10 :: real, 0 :: real) = 1"
proof -
  have c: "chain_from_seed [((10, 0), (20, 0)), ((0, 0), (10, 0))]
     (build_index (\<lambda>k. []) 0 [((10, 0), (20, 0)), ((0, 0), (10, 0))] 1) 1 [1] 0
     = ([], [(10, 0), (20, 0)], [(10, 0), (0, 0)])"
    by (simp add: merge_eval)
  have s: "[((10, 0), (20, 0)), ((0, 0), (10, 0))] ! 0 = ((10 :: real, 0 :: real), (20 :: real, 0 :: real))"
    by simp
  from merged_sequence_structure[OF s c] c show ?thesis by simp
qed

subsection \<open>A consumed segment that is lost\<close>

text \<open>
  C10. During chain growth the candidate found through the endpoint index is removed from
  \<open>unused\<close> before its endpoints are compared with the chain end. There is an input with
  a collected segment whose quantized endpoint shares the bucket of the chain end, whose
  two endpoints are both farther than \<open>endpoint_tol\<close> from the chain end, that is consumed
  and appears in no returned polyline although its own length is at least \<open>min_length\<close>:
  the segment from \<open>(-4,-4)\<close> to \<open>(-4,-200)\<close>, with the chain end \<open>(4,4)\<close>, tolerance 10 and
  minimal length 50.
\<close>

theorem consumed_segment_lost:
  "extract_merged_polylines_in_rect
     [\<lparr>drawing_rect = Some (Rect (- 200) (- 200) 4 4),
       drawing_items = [(''l'', [Num (- 200), Num 4, Num 4, Num 4]),
                        (''l'', [Pt (- 4) (- 4), Pt (- 4) (- 200)])]\<rparr>]
     (Rect (- 300) (- 300) 100 100) 10 50
     = Inr [[(- 200, 4), (4, 4)]] \<and>
   collect_segments
     [\<lparr>drawing_rect = Some (Rect (- 200) (- 200) 4 4),
       drawing_items = [(''l'', [Num (- 200), Num 4, Num 4, Num 4]),
                        (''l'', [Pt (- 4) (- 4), Pt (- 4) (- 200)])]\<rparr>]
     (Rect (- 300) (- 300) 100 100) []
     = Inr [((- 200, 4), (4, 4)), ((- 4, - 4), (- 4, - 200))] \<and>
   round_point (- 4, - 4) 10 = round_point (4, 4) 10 \<and>
   \<not> dist_pt (4, 4) (- 4, - 4) \<le> 10 \<and> \<not> dist_pt (4, 4) (- 4, - 200) \<le> 10 \<and>
   grow [((- 200, 4), (4, 4)), ((- 4, - 4), (- 4, - 200))]
     (build_index (\<lambda>k. []) 0 [((- 200, 4), (4, 4)), ((- 4, - 4), (- 4, - 200))] 10)
     10 [1] (4, 4) [(- 200, 4), (4, 4)]
     = ([], [(- 200, 4), (4, 4)]) \<and>
   50 \<le> polyline_length [(- 4, - 4), (- 4, - 200)]"
  by (simp add: collect_eval merge_eval)


subsection \<open>Empty results\<close>

lemma item_segment_unrecognized:
  "unrecognized_field_count item \<Longrightarrow> item_segment item = Inr None"
  by (auto simp: unrecognized_field_count_def item_segment_def split: prod.splits)

lemma collect_items_unrecognized:
  "\<forall>item\<in>set its. unrecognized_field_count item \<Longrightarrow> collect_items its segments = Inr segments"
  by (induction its arbitrary: segments) (simp_all add: item_segment_unrecognized)

lemma collect_segments_all_skipped:
  "\<forall>d\<in>set drawings. drawing_rect d = None \<or>
      (\<forall>item\<in>set (drawing_items d). unrecognized_field_count item) \<Longrightarrow>
   collect_segments drawings region segments = Inr segments"
proof (induction drawings arbitrary: segments)
  case Nil
  then show ?case by simp
next
  case (Cons d ds)
  then have rest: "collect_segments ds region segments = Inr segments" by simp
  from Cons.prems have "drawing_rect d = None \<or>
      (\<forall>item\<in>set (drawing_items d). unrecognized_field_count item)" by simp
  then show ?case
  proof
    assume "drawing_rect d = None"
    then show ?thesis by (simp add: rest)
  next
    assume "\<forall>item\<in>set (drawing_items d). unrecognized_field_count item"
    then have "collect_items (drawing_items d) segments = Inr segments"
      by (rule collect_items_unrecognized)
    then show ?thesis by (simp add: rest split: option.splits)
  qed
qed

text \<open>
  C8. No-detection outcomes are empty results and not errors: without a station hit
  \<^verbatim>\<open>detect_section_frames\<close> returns the empty list of frames; without a collected segment
  \<^verbatim>\<open>extract_merged_polylines_in_rect\<close> returns the empty list, in particular when every
  drawing lacks its rectangle or has only path items with an unrecognized field count.
\<close>

theorem no_detection_is_empty_result:
  "(find_station_text words = [] \<longrightarrow> detect_section_frames words page_w page_h = []) \<and>
   (collect_segments drawings region [] = Inr [] \<longrightarrow>
      extract_merged_polylines_in_rect drawings region endpoint_tol min_length = Inr []) \<and>
   ((\<forall>d\<in>set drawings. drawing_rect d = None \<or>
        (\<forall>item\<in>set (drawing_items d). unrecognized_field_count item)) \<longrightarrow>
      extract_merged_polylines_in_rect drawings region endpoint_tol min_length = Inr [])"
proof (intro conjI impI)
  assume "find_station_text words = []"
  then show "detect_section_frames words page_w page_h = []"
    by (simp add: detect_section_frames_def)
next
  assume "collect_segments drawings region [] = Inr []"
  then show "extract_merged_polylines_in_rect drawings region endpoint_tol min_length = Inr []"
    by (simp add: extract_merged_polylines_in_rect_def merge_segments_def)
next
  assume "\<forall>d\<in>set drawings. drawing_rect d = None \<or>
        (\<forall>item\<in>set (drawing_items d). unrecognized_field_count item)"
  then have "collect_segments drawings region [] = Inr []"
    by (rule collect_segments_all_skipped)
  then show "extract_merged_polylines_in_rect drawings region endpoint_tol min_length = Inr []"
    by (simp add: extract_merged_polylines_in_rect_def merge_segments_def)
qed

theorem no_detection_is_empty_result_witness:
  "find_station_text [(0, 0, 1, 1, ''STA''), (0, 0, 1, 1, ''45+00'')] = [] \<and>
   detect_section_frames [(0, 0, 1, 1, ''STA''), (0, 0, 1, 1, ''45+00'')] 612 792 = [] \<and>
   collect_segments
     [\<lparr>drawing_rect = None, drawing_items = [(''l'', [Num 0, Num 0, Num 9, Num 9])]\<rparr>,
      \<lparr>drawing_rect = Some (Rect 0 0 10 10),
       drawing_items = [(''l'', [Num 1, Num 2, Num 3]), (''c'', [Pt 0 0, Pt 1 1])]\<rparr>]
     (Rect 0 0 100 100) [] = Inr [] \<and>
   extract_merged_polylines_in_rect
     [\<lparr>drawing_rect = None, drawing_items = [(''l'', [Num 0, Num 0, Num 9, Num 9])]\<rparr>,
      \<lparr>drawing_rect = Some (Rect 0 0 10 10),
       drawing_items = [(''l'', [Num 1, Num 2, Num 3]), (''c'', [Pt 0 0, Pt 1 1])]\<rparr>]
     (Rect 0 0 100 100) 0 80 = Inr []"
proof -
  let ?ws = "[(0, 0, 1, 1, ''STA''), (0, 0, 1, 1, ''45+00'')] :: text_word list"
  let ?ds = "[\<lparr>drawing_rect = None, drawing_items = [(''l'', [Num 0, Num 0, Num 9, Num 9])]\<rparr>,
      \<lparr>drawing_rect = Some (Rect 0 0 10 10),
       drawing_items = [(''l'', [Num 1, Num 2, Num 3]), (''c'', [Pt 0 0, Pt 1 1])]\<rparr>]"
  have h1: "find_station_text ?ws = []"
    by (simp add: find_station_text_def station_eval)
  have h2: "collect_segments ?ds (Rect 0 0 100 100) [] = Inr []"
    by (simp add: collect_eval)
  have h3: "\<forall>d\<in>set ?ds. drawing_rect d = None \<or>
        (\<forall>item\<in>set (drawing_items d). unrecognized_field_count item)"
    by (simp add: unrecognized_field_count_def)
  from no_detection_is_empty_result[of ?ws 612 792 ?ds "Rect 0 0 100 100" 0 80] h1 h2 h3
  show ?thesis by simp
qed

subsection \<open>Section height\<close>

lemma section_deltas_length: "length (section_deltas ys) = length ys - 1"
  by (simp add: section_deltas_def)

lemma section_deltas_3: "section_deltas [a, b, c] = [b - a, c - b]"
  by (simp add: section_deltas_def upt_conv_Cons)

lemmas frame_eval =
  detect_section_frames_def find_station_text_def station_eval section_height_def
  section_deltas_3 station_frame_def dedup_frames_def dedup_step_def rect_and_def rect_or_def
  get_area_def rect_bool_def Rect_def Let_def

text \<open>
  C4. With at least two station hits, sorted by their top coordinate, there is at least one
  delta, and the section height is the larger of 200 and 0.9 times the element at index
  \<open>count div 2\<close> of the sorted deltas, where \<open>count\<close> is the number of deltas. For the top
  coordinates 100, 300 and 520 the section height is 200. With exactly one station hit the
  section height is a third of the page height.
\<close>

theorem section_height_median:
  "(2 \<le> length hits \<longrightarrow>
      section_height page_h hits =
        max 200 (0.9 * sort (section_deltas (map (\<lambda>h. y0 (snd h)) hits)) ! ((length hits - 1) div 2))) \<and>
   (length hits = 1 \<longrightarrow> section_height page_h hits = page_h / 3) \<and>
   section_height page_h
     [(''445+00'', Rect 900 100 950 110), (''446+00'', Rect 900 300 950 310),
      (''447+00'', Rect 900 520 950 530)] = 200 \<and>
   detect_section_frames
     [(900, 520, 950, 530, ''447+00''), (900, 100, 950, 110, ''445+00''),
      (400, 50, 500, 60, ''SECTIONS''), (900, 300, 950, 310, ''446+00'')] 1000 800
     = [Rect 30 5 980 205, Rect 30 205 980 405, Rect 30 425 980 625]"
proof (intro conjI impI)
  assume "2 \<le> length hits"
  then have ne: "section_deltas (map (\<lambda>(st, r). y0 r) hits) \<noteq> []"
    using section_deltas_length[of "map (\<lambda>(st, r). y0 r) hits"] by (auto simp flip: length_0_conv)
  have m: "(\<lambda>(st, r). y0 r) = (\<lambda>h :: station_hit. y0 (snd h))" by (simp add: fun_eq_iff)
  show "section_height page_h hits =
        max 200 (0.9 * sort (section_deltas (map (\<lambda>h. y0 (snd h)) hits)) ! ((length hits - 1) div 2))"
    using ne by (simp add: section_height_def Let_def section_deltas_length m mult.commute)
next
  assume "length hits = 1"
  then have "section_deltas (map (\<lambda>(st, r). y0 r) hits) = []"
    by (simp add: section_deltas_def)
  then show "section_height page_h hits = page_h / 3"
    by (simp add: section_height_def)
next
  show "section_height page_h
     [(''445+00'', Rect 900 100 950 110), (''446+00'', Rect 900 300 950 310),
      (''447+00'', Rect 900 520 950 530)] = 200"
    by (simp add: section_height_def section_deltas_3 Rect_def)
next
  show "detect_section_frames
     [(900, 520, 950, 530, ''447+00''), (900, 100, 950, 110, ''445+00''),
      (400, 50, 500, 60, ''SECTIONS''), (900, 300, 950, 310, ''446+00'')] 1000 800
     = [Rect 30 5 980 205, Rect 30 205 980 405, Rect 30 425 980 625]"
    by (simp add: frame_eval)
qed

theorem section_height_median_witness:
  "2 \<le> length [(''445+00'', Rect 900 100 950 110), (''446+00'', Rect 900 300 950 310),
      (''447+00'', Rect 900 520 950 530)] \<and>
   section_height 800
     [(''445+00'', Rect 900 100 950 110), (''446+00'', Rect 900 300 950 310),
      (''447+00'', Rect 900 520 950 530)] = max 200 (0.9 * 220) \<and>
   length [(''445+00'', Rect 900 100 950 110)] = 1 \<and>
   section_height 800 [(''445+00'', Rect 900 100 950 110)] = 800 / 3"
  using section_height_median[of "[(''445+00'', Rect 900 100 950 110), (''446+00'', Rect 900 300 950 310),
      (''447+00'', Rect 900 520 950 530)]" 800]
    section_height_median[of "[(''445+00'', Rect 900 100 950 110)]" 800]
  by (simp add: section_deltas_3 Rect_def)

text \<open>
  For an even number of deltas the index \<open>count div 2\<close> selects the upper of the two middle
  elements: 220 for the deltas 200 and 220.
\<close>

lemma median_index_upper_middle:
  "sort (section_deltas [100, 300, 520]) ! (length (section_deltas [100, 300, 520]) div 2) = 220"
  by (simp add: section_deltas_3)

subsection \<open>Frame deduplication\<close>

lemma get_area_nonneg: "0 \<le> get_area r"
  by (simp add: get_area_def)

lemma get_area_false_rect: "\<not> rect_bool r \<Longrightarrow> get_area r = 0"
  by (simp add: get_area_def rect_bool_def)

lemma overlap_test:
  "(rect_bool (rect_and prev fr) \<and>
     get_area (rect_and prev fr) > 0.4 * min (get_area prev) (get_area fr)) =
   (get_area (rect_and prev fr) > 0.4 * min (get_area prev) (get_area fr))"
proof (cases "rect_bool (rect_and prev fr)")
  case True
  then show ?thesis by simp
next
  case False
  have "\<not> min (get_area prev) (get_area fr) < 0"
    using get_area_nonneg[of prev] get_area_nonneg[of fr] by (simp add: min_def)
  with False show ?thesis by (simp add: get_area_false_rect)
qed

text \<open>
  C5. In the walk over the frames, the previous kept frame and the next frame are merged,
  the kept frame being replaced by the union of the two, exactly when the area of their
  intersection is greater than 40 percent of the smaller of their two areas; otherwise the
  next frame is appended. At exactly 40 percent the frames stay distinct.
\<close>

theorem frame_merge_threshold:
  "dedup_step (kept @ [prev]) fr =
     (if get_area (rect_and prev fr) > 0.4 * min (get_area prev) (get_area fr)
      then kept @ [rect_or prev fr]
      else kept @ [prev, fr]) \<and>
   dedup_frames [prev, fr] =
     (if get_area (rect_and prev fr) > 0.4 * min (get_area prev) (get_area fr)
      then [rect_or prev fr]
      else [prev, fr]) \<and>
   dedup_frames [Rect 0 0 10 10, Rect 0 6 10 16] = [Rect 0 0 10 10, Rect 0 6 10 16] \<and>
   dedup_frames [Rect 0 0 10 10, Rect 0 5 10 15] = [Rect 0 0 10 15]"
proof -
  have step: "dedup_step (kept @ [prev]) fr =
     (if get_area (rect_and prev fr) > 0.4 * min (get_area prev) (get_area fr)
      then kept @ [rect_or prev fr]
      else kept @ [prev, fr])" for kept
    unfolding dedup_step_def Let_def overlap_test by simp
  have two: "dedup_frames [prev, fr] = dedup_step ([] @ [prev]) fr"
    by (simp add: dedup_frames_def dedup_step_def)
  have ex: "dedup_frames [Rect 0 0 10 10, Rect 0 6 10 16] = [Rect 0 0 10 10, Rect 0 6 10 16] \<and>
      dedup_frames [Rect 0 0 10 10, Rect 0 5 10 15] = [Rect 0 0 10 15]"
    by (simp add: dedup_frames_def dedup_step_def rect_and_def rect_or_def get_area_def
        rect_bool_def Rect_def Let_def)
  show ?thesis
    using step[of kept] step[of "[]"] two ex by simp
qed

end
